theory Spec2Isabelle
  imports Main
begin

section \<open>The packtools package descriptor (setup.py)\<close>

text \<open>
  The repository's single source file is a setuptools descriptor. It defines one helper,
  \<^verbatim>\<open>_path(fn) = os.path.join(os.path.dirname(__file__), fn)\<close>, and calls
  \<^verbatim>\<open>setup\<close> with literal keyword arguments. The embedding below has three layers:
  the string methods and the \<^verbatim>\<open>os.path\<close> functions the helper calls (POSIX
  flavour, transcribed from the standard library), the helper and the keyword record
  of the source, and the resolution of a path against a working directory.
\<close>

subsection \<open>Python string methods used by os.path\<close>

text \<open>The path separator of \<^verbatim>\<open>posixpath\<close>.\<close>

definition sep :: char where
  "sep = CHR ''/''"

text \<open>\<^verbatim>\<open>s.rfind(c)\<close>: the highest index of \<open>c\<close> in \<open>s\<close>, or \<open>-1\<close>.\<close>

fun rfind :: "char \<Rightarrow> string \<Rightarrow> int" where
  "rfind c [] = - 1"
| "rfind c (x # xs) =
     (let r = rfind c xs in
      if 0 \<le> r then r + 1 else if x = c then 0 else - 1)"

text \<open>\<^verbatim>\<open>s.rstrip(c)\<close>: \<open>s\<close> without its trailing run of \<open>c\<close>.\<close>

definition rstrip :: "char \<Rightarrow> string \<Rightarrow> string" where
  "rstrip c s = rev (dropWhile (\<lambda>x. x = c) (rev s))"

text \<open>\<^verbatim>\<open>s.startswith(c)\<close> and \<^verbatim>\<open>s.endswith(c)\<close> for a one-character \<open>c\<close>.\<close>

definition startswith :: "string \<Rightarrow> char \<Rightarrow> bool" where
  "startswith s c = (s \<noteq> [] \<and> hd s = c)"

definition endswith :: "string \<Rightarrow> char \<Rightarrow> bool" where
  "endswith s c = (s \<noteq> [] \<and> last s = c)"

subsection \<open>os.path.join, os.path.dirname, os.path.basename\<close>

text \<open>
  One round of the loop of \<^verbatim>\<open>join(a, *p)\<close>: an absolute component replaces the
  path built so far; otherwise it is appended, with a separator unless the path is empty
  or already ends with one.
\<close>

definition join_step :: "string \<Rightarrow> string \<Rightarrow> string" where
  "join_step path b =
     (if startswith b sep then b
      else if path = [] \<or> endswith path sep then path @ b
      else path @ [sep] @ b)"

definition join :: "string \<Rightarrow> string list \<Rightarrow> string" where
  "join a p = foldl join_step a p"

text \<open>
  \<^verbatim>\<open>dirname(p)\<close>: everything up to and including the last separator, with the
  trailing separators stripped unless the head consists of separators only.
\<close>

definition dirname :: "string \<Rightarrow> string" where
  "dirname p =
     (let i = rfind sep p + 1;
          head = take (nat i) p
      in if head \<noteq> [] \<and> head \<noteq> replicate (length head) sep
         then rstrip sep head else head)"

text \<open>\<^verbatim>\<open>basename(p)\<close>: everything after the last separator.\<close>

definition basename :: "string \<Rightarrow> string" where
  "basename p = drop (nat (rfind sep p + 1)) p"

subsection \<open>The descriptor\<close>

text \<open>
  The keyword arguments of the call of \<^verbatim>\<open>setup\<close>. The field \<^verbatim>\<open>keywords\<close>
  is named \<open>keywords_field\<close>, the plain word being reserved.
\<close>

record descriptor =
  name :: string
  version :: string
  description :: string
  author :: string
  author_email :: string
  url :: string
  scripts :: "string list"
  install_requires :: "string list"
  classifiers :: "string list"
  keywords_field :: string

text \<open>
  The helper \<^verbatim>\<open>_path\<close> of the source (an identifier cannot start with an
  underscore here). Its first argument is the module's \<^verbatim>\<open>__file__\<close>, which the
  source reads as a global.
\<close>

definition u_path :: "string \<Rightarrow> string \<Rightarrow> string" where
  "u_path file fn = join (dirname file) [fn]"

text \<open>The record the source hands to \<^verbatim>\<open>setup\<close>, as a function of \<^verbatim>\<open>__file__\<close>.\<close>

definition setup_args :: "string \<Rightarrow> descriptor" where
  "setup_args file =
     \<lparr> name = ''packtools'',
       version = ''0.0.1'',
       description = ''Packaging toolbelt'',
       author = ''OpenStack Foundation'',
       author_email = ''openstack-dev@lists.openstack.org'',
       url = ''https://github.com/harlowja/packtools/'',
       scripts =
         [ u_path file (join ''scripts'' [''multipip'']),
           u_path file (join ''scripts'' [''pip-download'']),
           u_path file (join ''scripts'' [''py2rpm'']),
           u_path file (join ''scripts'' [''specprint'']),
           u_path file (join ''scripts'' [''yyoom'']) ],
       install_requires =
         [ ''argparse'',
           ''pip>=1.3'',
           ''six>=1.4.1'' ],
       classifiers =
         [ ''Development Status :: 4 - Beta'',
           ''Topic :: Utilities'',
           ''Operating System :: POSIX :: Linux'',
           ''Programming Language :: Python'' ],
       keywords_field = ''packaging rpm pip yum specfile'' \<rparr>"

subsection \<open>Resolving a path against a working directory\<close>

text \<open>
  How a path is resolved by the operating system when the working directory is \<open>c\<close>:
  an absolute path stands for itself, a relative one is taken below \<open>c\<close>. This is what
  \<^verbatim>\<open>os.path.join(os.getcwd(), p)\<close> computes.
\<close>

definition resolve :: "string \<Rightarrow> string \<Rightarrow> string" where
  "resolve c p = join c [p]"

text \<open>
  The shape of a working directory as \<^verbatim>\<open>os.getcwd()\<close> reports it: an absolute
  path that carries no trailing separator, the root apart.
\<close>

definition getcwd_form :: "string \<Rightarrow> bool" where
  "getcwd_form c = (startswith c sep \<and> (c = [sep] \<or> \<not> endswith c sep))"

text \<open>
  \<^verbatim>\<open>os.path.normpath\<close>, which removes empty and \<^verbatim>\<open>.\<close> components and
  cancels \<^verbatim>\<open>..\<close> against the component before it. Its parts: the count of
  leading separators it keeps (two exactly when the path starts with two and not three),
  \<^verbatim>\<open>path.split('/')\<close>, one round of its loop over the components, and
  \<^verbatim>\<open>'/'.join(comps)\<close>.
\<close>

definition initial_slashes :: "string \<Rightarrow> nat" where
  "initial_slashes path =
     (if startswith path sep then
        (if take 2 path = [sep, sep] \<and> take 3 path \<noteq> [sep, sep, sep] then 2 else 1)
      else 0)"

fun split_sep :: "string \<Rightarrow> string list" where
  "split_sep [] = [[]]"
| "split_sep (x # xs) =
     (if x = sep then [] # split_sep xs
      else (case split_sep xs of [] \<Rightarrow> [[x]] | w # ws \<Rightarrow> (x # w) # ws))"

fun sep_join :: "string list \<Rightarrow> string" where
  "sep_join [] = []"
| "sep_join [w] = w"
| "sep_join (w # v # ws) = w @ sep # sep_join (v # ws)"

definition norm_step :: "nat \<Rightarrow> string list \<Rightarrow> string \<Rightarrow> string list" where
  "norm_step initial new_comps cmpt =
     (if cmpt = [] \<or> cmpt = ''.'' then new_comps
      else if cmpt \<noteq> ''..'' \<or> (initial = 0 \<and> new_comps = []) \<or>
              (new_comps \<noteq> [] \<and> last new_comps = ''..'')
      then new_comps @ [cmpt]
      else if new_comps \<noteq> [] then butlast new_comps
      else new_comps)"

definition normpath :: "string \<Rightarrow> string" where
  "normpath path =
     (if path = [] then ''.''
      else
        let initial = initial_slashes path;
            comps = foldl (norm_step initial) [] (split_sep path);
            p = replicate initial sep @ sep_join comps
        in if p = [] then ''.'' else p)"

text \<open>
  \<^verbatim>\<open>os.path.abspath\<close> with the working directory as an argument: a relative path
  is joined to the working directory, and the result is normalised. Two spellings of a
  path name the same file, as far as the names go, when they have the same
  \<open>abspath\<close>.
\<close>

definition abspath :: "string \<Rightarrow> string \<Rightarrow> string" where
  "abspath c path = normpath (if startswith path sep then path else join c [path])"

subsection \<open>Dependency specifiers\<close>

text \<open>
  The requirement grammar belongs to the build tool, not to this repository. The reader
  below follows the glossary of the specification, "a name plus optional version
  constraint": a non-empty project name, then either nothing or one comparison operator
  and a non-empty version.
\<close>

datatype cmp = Op_ge | Op_le | Op_eq | Op_ne | Op_compat | Op_gt | Op_lt

definition name_char :: "char \<Rightarrow> bool" where
  "name_char c =
     (c \<in> set (''abcdefghijklmnopqrstuvwxyz'' @ ''ABCDEFGHIJKLMNOPQRSTUVWXYZ'' @
               ''0123456789'' @ ''-_.''))"

definition version_char :: "char \<Rightarrow> bool" where
  "version_char c =
     (c \<in> set (''abcdefghijklmnopqrstuvwxyz'' @ ''ABCDEFGHIJKLMNOPQRSTUVWXYZ'' @
               ''0123456789'' @ ''.*+!-_''))"

fun parse_op :: "string \<Rightarrow> (cmp \<times> string) option" where
  "parse_op (a # b # rest) =
     (if b = CHR ''='' then
        (if a = CHR ''>'' then Some (Op_ge, rest)
         else if a = CHR ''<'' then Some (Op_le, rest)
         else if a = CHR ''='' then Some (Op_eq, rest)
         else if a = CHR ''!'' then Some (Op_ne, rest)
         else if a = CHR ''~'' then Some (Op_compat, rest)
         else None)
      else if a = CHR ''>'' then Some (Op_gt, b # rest)
      else if a = CHR ''<'' then Some (Op_lt, b # rest)
      else None)"
| "parse_op _ = None"

definition parse_specifier :: "string \<Rightarrow> (string \<times> (cmp \<times> string) option) option" where
  "parse_specifier s =
     (let nm = takeWhile name_char s;
          rest = dropWhile name_char s
      in if nm = [] then None
         else if rest = [] then Some (nm, None)
         else (case parse_op rest of
                 None \<Rightarrow> None
               | Some (opr, v) \<Rightarrow>
                   if v \<noteq> [] \<and> list_all version_char v
                   then Some (nm, Some (opr, v)) else None))"

definition valid_specifier :: "string \<Rightarrow> bool" where
  "valid_specifier s = (parse_specifier s \<noteq> None)"

text \<open>A minimum-version constraint is one whose operator bounds the version from below.\<close>

definition has_min_version :: "string \<Rightarrow> bool" where
  "has_min_version s =
     (case parse_specifier s of
        Some (nm, Some (opr, v)) \<Rightarrow> opr = Op_ge \<or> opr = Op_gt
      | _ \<Rightarrow> False)"

definition specifier_name :: "string \<Rightarrow> string option" where
  "specifier_name s = map_option fst (parse_specifier s)"

section \<open>Facts about the string methods\<close>

lemma rfind_absent: "c \<notin> set s \<Longrightarrow> rfind c s = - 1"
  by (induction s) (auto simp: Let_def)

lemma rfind_last_occurrence: "c \<notin> set t \<Longrightarrow> rfind c (h @ c # t) = int (length h)"
  by (induction h) (auto simp: Let_def rfind_absent)

lemma rstrip_snoc_same: "rstrip c (s @ [c]) = rstrip c s"
  by (simp add: rstrip_def)

lemma rstrip_keeps: "s \<noteq> [] \<Longrightarrow> last s \<noteq> c \<Longrightarrow> rstrip c s = s"
  by (cases s rule: rev_cases) (auto simp: rstrip_def)

lemma rstrip_nil: "rstrip c [] = []"
  by (simp add: rstrip_def)

lemma rstrip_append: "rstrip c b \<noteq> [] \<Longrightarrow> rstrip c (a @ b) = a @ rstrip c b"
  by (auto simp: rstrip_def dropWhile_append)

lemma dirname_no_sep: "sep \<notin> set p \<Longrightarrow> dirname p = []"
  by (simp add: dirname_def rfind_absent)

lemma cut_index: "c \<notin> set t \<Longrightarrow> nat (rfind c (h @ c # t) + 1) = Suc (length h)"
  by (simp add: rfind_last_occurrence)

lemma take_cut: "take (Suc (length h)) (h @ c # t) = h @ [c]"
  by simp

lemma drop_cut: "drop (Suc (length h)) (h @ c # t) = t"
  by simp

lemma dirname_at_last_sep:
  assumes "sep \<notin> set t"
  shows "dirname (h @ sep # t) =
     (if h @ [sep] \<noteq> replicate (Suc (length h)) sep then rstrip sep h else h @ [sep])"
proof -
  have i: "nat (rfind sep (h @ sep # t) + 1) = Suc (length h)"
    by (rule cut_index [OF assms])
  have hd: "take (Suc (length h)) (h @ sep # t) = h @ [sep]"
    by (rule take_cut)
  have len: "length (h @ [sep]) = Suc (length h)"
    by simp
  show ?thesis
    unfolding dirname_def Let_def i hd len
    by (simp only: rstrip_snoc_same) simp
qed

lemma basename_at_last_sep:
  assumes "sep \<notin> set t"
  shows "basename (h @ sep # t) = t"
  unfolding basename_def cut_index [OF assms] by (rule drop_cut)

lemma join_one: "join a [b] = join_step a b"
  by (simp add: join_def)

lemma rstrip_snoc: "rstrip c (s @ [x]) = (if x = c then rstrip c s else s @ [x])"
  by (simp add: rstrip_def)

lemma rstrip_decomp: "\<exists>k. s = rstrip c s @ replicate k c"
proof (induction s rule: rev_induct)
  case Nil
  then show ?case by (simp add: rstrip_def)
next
  case (snoc x xs)
  then obtain k where k: "xs = rstrip c xs @ replicate k c" by blast
  show ?case
  proof (cases "x = c")
    case True
    have e1: "rstrip c (xs @ [x]) = rstrip c xs"
      using True by (simp add: rstrip_snoc)
    have "xs @ [x] = (rstrip c xs @ replicate k c) @ [c]"
      using k True by simp
    also have "\<dots> = rstrip c xs @ replicate (Suc k) c"
      by (simp only: append_assoc replicate_append_same replicate_Suc)
    finally have e2: "xs @ [x] = rstrip c xs @ replicate (Suc k) c" .
    have "xs @ [x] = rstrip c (xs @ [x]) @ replicate (Suc k) c"
      by (subst e1) (rule e2)
    then show ?thesis by (rule exI)
  next
    case False
    then have "xs @ [x] = rstrip c (xs @ [x]) @ replicate 0 c"
      by (simp add: rstrip_snoc)
    then show ?thesis by (rule exI)
  qed
qed

lemma rstrip_last: "rstrip c s \<noteq> [] \<Longrightarrow> last (rstrip c s) \<noteq> c"
  by (induction s rule: rev_induct) (auto simp: rstrip_snoc rstrip_nil)

lemma rstrip_hd:
  assumes "s \<noteq> []" "hd s \<noteq> c"
  shows "rstrip c s \<noteq> [] \<and> hd (rstrip c s) = hd s"
proof -
  obtain k where k: "s = rstrip c s @ replicate k c"
    using rstrip_decomp by blast
  have ne: "rstrip c s \<noteq> []"
  proof
    assume "rstrip c s = []"
    then have "s = replicate k c" using k by simp
    then show False using assms by (cases k) auto
  qed
  then have "hd s = hd (rstrip c s)"
    using k by (metis hd_append2)
  then show ?thesis using ne by simp
qed

lemma rstrip_hd_same:
  assumes "rstrip c s \<noteq> []"
  shows "hd (rstrip c s) = hd s"
proof -
  obtain k where k: "s = rstrip c s @ replicate k c"
    using rstrip_decomp by blast
  show ?thesis using k assms by (metis hd_append2)
qed

lemma rstrip_empty_all: "rstrip c s = [] \<Longrightarrow> s = replicate (length s) c"
proof -
  assume e: "rstrip c s = []"
  obtain k where k: "s = rstrip c s @ replicate k c"
    using rstrip_decomp by blast
  then have "s = replicate k c" using e by simp
  then show ?thesis by (metis length_replicate)
qed

section \<open>Facts about joined paths\<close>

lemma no_sep_relative: "sep \<notin> set n \<Longrightarrow> \<not> startswith n sep"
  by (cases n) (auto simp: startswith_def)

lemma join_step_absolute: "startswith b sep \<Longrightarrow> join_step a b = b"
  by (simp add: join_step_def)

lemma join_step_relative:
  "\<not> startswith b sep \<Longrightarrow>
   join_step a b = (if a = [] \<or> last a = sep then a @ b else a @ sep # b)"
  by (auto simp: join_step_def endswith_def)

lemma scripts_component: "sep \<notin> set n \<Longrightarrow> join ''scripts'' [n] = ''scripts'' @ sep # n"
  by (simp add: join_one join_step_relative no_sep_relative) (simp add: sep_def)

lemma scripts_component_relative: "\<not> startswith (''scripts'' @ b) sep"
  by (simp add: startswith_def sep_def)

lemma scripts_dir_shape: "\<exists>X. join d [''scripts''] = X @ ''scripts''"
proof -
  have "join d [''scripts''] = (if d = [] \<or> last d = sep then d @ ''scripts'' else (d @ [sep]) @ ''scripts'')"
    using scripts_component_relative [of "[]"] by (simp add: join_one join_step_relative)
  then show ?thesis by (metis (full_types))
qed

lemma u_path_script:
  assumes "sep \<notin> set n"
  shows "u_path f (join ''scripts'' [n]) = join (dirname f) [''scripts''] @ sep # n"
proof -
  have r1: "\<not> startswith (''scripts'' @ sep # n) sep"
    by (rule scripts_component_relative)
  have r2: "\<not> startswith ''scripts'' sep"
    using scripts_component_relative [of "[]"] by simp
  have "u_path f (join ''scripts'' [n]) = join (dirname f) [''scripts'' @ sep # n]"
    by (simp only: u_path_def scripts_component [OF assms])
  also have "\<dots> = join_step (dirname f) (''scripts'' @ sep # n)"
    by (rule join_one)
  also have "\<dots> = join_step (dirname f) ''scripts'' @ sep # n"
    unfolding join_step_relative [OF r1] join_step_relative [OF r2] by simp
  finally show ?thesis by (simp only: join_one)
qed

lemma join_scripts_name:
  assumes "sep \<notin> set n"
  shows "join d [''scripts'', n] = join d [''scripts''] @ sep # n"
proof -
  obtain X where X: "join d [''scripts''] = X @ ''scripts''"
    using scripts_dir_shape by blast
  have "join d [''scripts'', n] = join_step (join d [''scripts'']) n"
    by (simp add: join_def)
  also have "\<dots> = join d [''scripts''] @ sep # n"
    unfolding X join_step_relative [OF no_sep_relative [OF assms]]
    by (simp add: sep_def)
  finally show ?thesis .
qed

lemma dirname_script:
  assumes "sep \<notin> set n"
  shows "dirname (join d [''scripts''] @ sep # n) = join d [''scripts'']"
proof -
  obtain X where X: "join d [''scripts''] = X @ ''scripts''"
    using scripts_dir_shape by blast
  have s: "CHR ''s'' \<in> set ((X @ ''scripts'') @ [sep])"
    by simp
  have ne: "(X @ ''scripts'') @ [sep] \<noteq> replicate (Suc (length (X @ ''scripts''))) sep"
  proof
    assume "(X @ ''scripts'') @ [sep] = replicate (Suc (length (X @ ''scripts''))) sep"
    then have "CHR ''s'' \<in> set (replicate (Suc (length (X @ ''scripts''))) sep)"
      using s by simp
    then show False by (simp add: sep_def)
  qed
  have keep: "rstrip sep (X @ ''scripts'') = X @ ''scripts''"
    by (rule rstrip_keeps) (simp_all add: sep_def)
  show ?thesis
    unfolding X dirname_at_last_sep [OF assms] using ne keep by simp
qed

lemma basename_script:
  assumes "sep \<notin> set n"
  shows "basename (join d [''scripts''] @ sep # n) = n"
  by (rule basename_at_last_sep [OF assms])

section \<open>The declared script paths\<close>

lemma script_names_no_sep:
  "sep \<notin> set ''multipip''" "sep \<notin> set ''pip-download''" "sep \<notin> set ''py2rpm''"
  "sep \<notin> set ''specprint''" "sep \<notin> set ''yyoom''"
  by (simp_all add: sep_def)

lemma scripts_unfolded:
  "scripts (setup_args f) =
     [join (dirname f) [''scripts''] @ sep # ''multipip'',
      join (dirname f) [''scripts''] @ sep # ''pip-download'',
      join (dirname f) [''scripts''] @ sep # ''py2rpm'',
      join (dirname f) [''scripts''] @ sep # ''specprint'',
      join (dirname f) [''scripts''] @ sep # ''yyoom'']"
  by (simp add: setup_args_def u_path_script [OF script_names_no_sep(1)]
      u_path_script [OF script_names_no_sep(2)] u_path_script [OF script_names_no_sep(3)]
      u_path_script [OF script_names_no_sep(4)] u_path_script [OF script_names_no_sep(5)])

text \<open>
  Claim C2. The descriptor declares exactly five script entries, and their final path
  components are \<^verbatim>\<open>multipip\<close>, \<^verbatim>\<open>pip-download\<close>, \<^verbatim>\<open>py2rpm\<close>,
  \<^verbatim>\<open>specprint\<close> and \<^verbatim>\<open>yyoom\<close>, in that order, wherever the descriptor file lies.
\<close>

theorem five_scripts_in_order:
  "length (scripts (setup_args f)) = 5 \<and>
   map basename (scripts (setup_args f)) =
     [''multipip'', ''pip-download'', ''py2rpm'', ''specprint'', ''yyoom'']"
  unfolding scripts_unfolded
  by (simp add: basename_script [OF script_names_no_sep(1)]
      basename_script [OF script_names_no_sep(2)] basename_script [OF script_names_no_sep(3)]
      basename_script [OF script_names_no_sep(4)] basename_script [OF script_names_no_sep(5)])

section \<open>Resolution against the working directory\<close>

lemma resolve_relative:
  assumes "getcwd_form c" "\<not> startswith p sep"
  shows "resolve c p = (if c = [sep] then sep # p else c @ sep # p)"
  using assms
  by (auto simp: resolve_def join_one join_step_relative getcwd_form_def
      startswith_def endswith_def)

lemma resolve_cwd_inj:
  assumes "getcwd_form c1" "getcwd_form c2" "\<not> startswith p sep"
    and "resolve c1 p = resolve c2 p"
  shows "c1 = c2"
proof -
  have ne: "c1 \<noteq> []" "c2 \<noteq> []"
    using assms(1,2) by (auto simp: getcwd_form_def startswith_def)
  have "(if c1 = [sep] then sep # p else c1 @ sep # p) =
        (if c2 = [sep] then sep # p else c2 @ sep # p)"
    using assms(4) resolve_relative [OF assms(1,3)] resolve_relative [OF assms(2,3)]
    by simp
  then show ?thesis
    using ne by (auto split: if_splits simp: append_eq_Cons_conv Cons_eq_append_conv)
qed

lemma all_sep_last:
  assumes "c \<noteq> []" "c @ [x] = replicate (Suc (length c)) x"
  shows "last c = x"
proof -
  have "set (replicate (Suc (length c)) x) \<subseteq> {x}"
    by auto
  then have "set (c @ [x]) \<subseteq> {x}"
    by (simp only: assms(2))
  then have "set c \<subseteq> {x}" by simp
  moreover have "last c \<in> set c" using assms(1) by simp
  ultimately show ?thesis by blast
qed

lemma all_sep_hd:
  assumes "c \<noteq> []" "c @ [x] = replicate (Suc (length c)) x"
  shows "hd c = x"
proof -
  have "set (replicate (Suc (length c)) x) \<subseteq> {x}"
    by auto
  then have "set (c @ [x]) \<subseteq> {x}"
    by (simp only: assms(2))
  then have "set c \<subseteq> {x}" by simp
  moreover have "hd c \<in> set c" using assms(1) by simp
  ultimately show ?thesis by blast
qed

lemma rstrip_not_all:
  assumes "h @ [c] \<noteq> replicate (Suc (length h)) c"
  shows "rstrip c h \<noteq> []"
proof
  assume "rstrip c h = []"
  then have "h = replicate (length h) c" by (rule rstrip_empty_all)
  then have "h @ [c] = replicate (length h) c @ [c]" by simp
  then have "h @ [c] = replicate (Suc (length h)) c"
    by (simp only: replicate_append_same replicate_Suc)
  then show False using assms by simp
qed

lemma dirname_relative:
  assumes "\<not> startswith (h @ sep # t) sep" "sep \<notin> set t"
  shows "dirname (h @ sep # t) = rstrip sep h \<and> rstrip sep h \<noteq> [] \<and>
         hd (rstrip sep h) \<noteq> sep \<and> last (rstrip sep h) \<noteq> sep"
proof -
  have h: "h \<noteq> []" "hd h \<noteq> sep"
    using assms(1) by (cases h; simp add: startswith_def)+
  have r: "rstrip sep h \<noteq> []" "hd (rstrip sep h) = hd h"
    using rstrip_hd [OF h] by simp_all
  have na: "h @ [sep] \<noteq> replicate (Suc (length h)) sep"
    using all_sep_hd [OF h(1)] h(2) by blast
  have "dirname (h @ sep # t) = rstrip sep h"
    using dirname_at_last_sep [OF assms(2), of h] na by simp
  then show ?thesis
    using r h(2) rstrip_last [OF r(1)] by simp
qed

lemma u_path_empty_dir: "dirname f = [] \<Longrightarrow> u_path f fn = fn"
  by (simp add: u_path_def join_one join_step_def)

text \<open>
  Claim C8. When the descriptor's path has an empty directory part, \<^verbatim>\<open>_path\<close>
  returns every argument unchanged, the declared script paths are the relative paths
  \<^verbatim>\<open>scripts/<name>\<close>, and each of them resolves differently in any two different
  working directories.
\<close>

theorem bare_file_name_paths_follow_cwd:
  assumes "dirname f = []"
  shows "u_path f fn = fn \<and>
     scripts (setup_args f) =
       [''scripts/multipip'', ''scripts/pip-download'', ''scripts/py2rpm'',
        ''scripts/specprint'', ''scripts/yyoom''] \<and>
     (getcwd_form c1 \<and> getcwd_form c2 \<and> c1 \<noteq> c2 \<longrightarrow>
        list_all (\<lambda>p. resolve c1 p \<noteq> resolve c2 p) (scripts (setup_args f)))"
proof -
  have u: "\<And>x. u_path f x = x"
    using assms by (rule u_path_empty_dir)
  have s: "scripts (setup_args f) =
       [''scripts/multipip'', ''scripts/pip-download'', ''scripts/py2rpm'',
        ''scripts/specprint'', ''scripts/yyoom'']"
    by (simp add: setup_args_def u join_def join_step_def startswith_def endswith_def sep_def)
  have rel: "\<And>b. \<not> startswith (''scripts/'' @ b) sep"
    by (simp add: startswith_def sep_def)
  have diff: "\<And>b. getcwd_form c1 \<Longrightarrow> getcwd_form c2 \<Longrightarrow> c1 \<noteq> c2 \<Longrightarrow>
      resolve c1 (''scripts/'' @ b) \<noteq> resolve c2 (''scripts/'' @ b)"
    using resolve_cwd_inj [OF _ _ rel] by blast
  have "getcwd_form c1 \<and> getcwd_form c2 \<and> c1 \<noteq> c2 \<longrightarrow>
        list_all (\<lambda>p. resolve c1 p \<noteq> resolve c2 p) (scripts (setup_args f))"
    unfolding s
    using diff [of "''multipip''"] diff [of "''pip-download''"] diff [of "''py2rpm''"]
      diff [of "''specprint''"] diff [of "''yyoom''"]
    by simp
  then show ?thesis using u s by simp
qed

theorem bare_file_name_paths_follow_cwd_witness:
  "dirname ''setup.py'' = [] \<and> getcwd_form ''/a'' \<and> getcwd_form ''/b'' \<and>
   u_path ''setup.py'' ''scripts/yyoom'' = ''scripts/yyoom'' \<and>
   scripts (setup_args ''setup.py'') =
       [''scripts/multipip'', ''scripts/pip-download'', ''scripts/py2rpm'',
        ''scripts/specprint'', ''scripts/yyoom''] \<and>
   list_all (\<lambda>p. resolve ''/a'' p \<noteq> resolve ''/b'' p) (scripts (setup_args ''setup.py''))"
proof -
  have h0: "dirname ''setup.py'' = []"
    by (simp add: dirname_def sep_def Let_def)
  have h1: "getcwd_form ''/a''"
    by (simp add: getcwd_form_def startswith_def endswith_def sep_def)
  have h2: "getcwd_form ''/b''"
    by (simp add: getcwd_form_def startswith_def endswith_def sep_def)
  have h3: "''/a'' \<noteq> ''/b''"
    by simp
  show ?thesis
    using bare_file_name_paths_follow_cwd [OF h0, of "''scripts/yyoom''" "''/a''" "''/b''"]
      h0 h1 h2 h3
    by blast
qed

section \<open>Normalised paths\<close>

lemma split_sep_nonempty: "split_sep p \<noteq> []"
  by (induction p) (auto split: list.splits)

lemma split_sep_append: "split_sep (a @ sep # b) = split_sep a @ split_sep b"
proof (induction a)
  case Nil
  then show ?case by simp
next
  case (Cons x a)
  obtain w ws where w: "split_sep a = w # ws"
    using split_sep_nonempty [of a] by (cases "split_sep a") auto
  show ?case using Cons w by simp
qed

lemma split_sep_plain: "sep \<notin> set t \<Longrightarrow> split_sep t = [t]"
  by (induction t) auto

lemma norm_step_empty: "norm_step i S [] = S"
  by (simp add: norm_step_def)

lemma norm_step_plain:
  "t \<noteq> [] \<Longrightarrow> t \<noteq> ''.'' \<Longrightarrow> t \<noteq> ''..'' \<Longrightarrow> norm_step i S t = S @ [t]"
  by (simp add: norm_step_def)

lemma norm_fold_trailing:
  "foldl (norm_step i) acc (split_sep (Y @ replicate k sep)) =
   foldl (norm_step i) acc (split_sep Y)"
proof (induction k)
  case 0
  then show ?case by simp
next
  case (Suc k)
  have "Y @ replicate (Suc k) sep = (Y @ replicate k sep) @ sep # []"
    by (simp add: replicate_append_same)
  then have "split_sep (Y @ replicate (Suc k) sep) = split_sep (Y @ replicate k sep) @ [[]]"
    using split_sep_append [of "Y @ replicate k sep" "[]"] by simp
  then show ?case using Suc by (simp add: norm_step_empty)
qed

lemma sep_join_snoc: "S \<noteq> [] \<Longrightarrow> sep_join (S @ [a]) = sep_join S @ sep # a"
  by (induction S rule: sep_join.induct) auto

lemma initial_slashes_cong:
  assumes "x \<noteq> sep" "y \<noteq> sep"
  shows "initial_slashes (A @ x # r) = initial_slashes (A @ y # r')"
proof (cases A)
  case Nil
  then show ?thesis using assms by (simp add: initial_slashes_def startswith_def)
next
  case (Cons a1 A1)
  note c1 = Cons
  show ?thesis
  proof (cases A1)
    case Nil
    then show ?thesis using assms c1 by (simp add: initial_slashes_def startswith_def)
  next
    case (Cons a2 A2)
    then show ?thesis using assms c1
      by (cases A2) (simp_all add: initial_slashes_def startswith_def)
  qed
qed

lemma sep_join_last_nonempty: "t \<noteq> [] \<Longrightarrow> sep_join (S @ [t]) \<noteq> []"
  by (cases "S = []") (simp_all add: sep_join_snoc)

lemma sep_join_snoc2:
  assumes "S \<noteq> []"
  shows "sep_join (S @ [a, b]) = sep_join S @ sep # a @ sep # b"
proof -
  have "sep_join ((S @ [a]) @ [b]) = sep_join (S @ [a]) @ sep # b"
    by (rule sep_join_snoc) simp
  also have "\<dots> = (sep_join S @ sep # a) @ sep # b"
    by (simp only: sep_join_snoc [OF assms])
  finally show ?thesis by simp
qed

lemma normpath_file:
  assumes "sep \<notin> set t" "t \<noteq> []" "t \<noteq> ''.''" "t \<noteq> ''..''"
  shows "normpath (Y @ sep # t) =
     replicate (initial_slashes (Y @ sep # t)) sep @
     sep_join (foldl (norm_step (initial_slashes (Y @ sep # t))) [] (split_sep Y) @ [t])"
proof -
  have "split_sep (Y @ sep # t) = split_sep Y @ [t]"
    by (simp add: split_sep_append split_sep_plain [OF assms(1)])
  then have "foldl (norm_step i) [] (split_sep (Y @ sep # t)) =
      foldl (norm_step i) [] (split_sep Y) @ [t]" for i
    by (simp add: norm_step_plain [OF assms(2,3,4)])
  then show ?thesis
    using sep_join_last_nonempty [OF assms(2)]
    by (simp add: normpath_def Let_def)
qed

lemma scripts_plain:
  "sep \<notin> set ''scripts''" "''scripts'' \<noteq> []" "''scripts'' \<noteq> ''.''" "''scripts'' \<noteq> ''..''"
  by (simp_all add: sep_def)

lemma normpath_script:
  assumes "sep \<notin> set n" "n \<noteq> []" "n \<noteq> ''.''" "n \<noteq> ''..''"
  shows "normpath (Y @ sep # ''scripts'' @ sep # n) =
     replicate (initial_slashes (Y @ sep # ''scripts'' @ sep # n)) sep @
     sep_join (foldl (norm_step (initial_slashes (Y @ sep # ''scripts'' @ sep # n))) []
       (split_sep Y) @ [''scripts'', n])"
proof -
  have sp: "split_sep (Y @ sep # ''scripts'') = split_sep Y @ [''scripts'']"
    by (simp only: split_sep_append split_sep_plain [OF scripts_plain(1)])
  have fo: "foldl (norm_step i) [] (split_sep (Y @ sep # ''scripts'')) =
      foldl (norm_step i) [] (split_sep Y) @ [''scripts'']" for i
    unfolding sp by (simp add: norm_step_plain [OF scripts_plain(2,3,4)])
  have "normpath ((Y @ sep # ''scripts'') @ sep # n) =
     replicate (initial_slashes ((Y @ sep # ''scripts'') @ sep # n)) sep @
     sep_join (foldl (norm_step (initial_slashes ((Y @ sep # ''scripts'') @ sep # n))) []
       (split_sep (Y @ sep # ''scripts'')) @ [n])"
    by (rule normpath_file [OF assms])
  then show ?thesis
    unfolding fo by simp
qed

lemma normpath_pair:
  assumes t: "sep \<notin> set t" "t \<noteq> []" "t \<noteq> ''.''" "t \<noteq> ''..''"
    and n: "sep \<notin> set n" "n \<noteq> []" "n \<noteq> ''.''" "n \<noteq> ''..''"
    and ini: "initial_slashes (Y' @ sep # ''scripts'' @ sep # n) = initial_slashes (Y @ sep # t)"
    and st: "\<And>i. foldl (norm_step i) [] (split_sep Y') = foldl (norm_step i) [] (split_sep Y)"
    and hyp: "normpath (Y @ sep # t) = D @ sep # t"
  shows "normpath (Y' @ sep # ''scripts'' @ sep # n) = D @ sep # ''scripts'' @ sep # n"
proof -
  define i where "i = initial_slashes (Y @ sep # t)"
  define S where "S = foldl (norm_step i) [] (split_sep Y)"
  have p: "D @ sep # t = replicate i sep @ sep_join (S @ [t])"
    using normpath_file [OF t, of Y] hyp by (simp add: i_def S_def)
  have q: "normpath (Y' @ sep # ''scripts'' @ sep # n) =
      replicate i sep @ sep_join (S @ [''scripts'', n])"
    using normpath_script [OF n, of Y'] unfolding ini st S_def i_def .
  show ?thesis
  proof (cases "S = []")
    case True
    then have "D @ [sep] @ t = replicate i sep @ t"
      using p by simp
    then have "D @ [sep] = replicate i sep"
      by (simp only: append_assoc [symmetric] append_same_eq)
    then have "replicate i sep @ ''scripts'' @ sep # n = D @ sep # ''scripts'' @ sep # n"
      by (metis append_Cons append_Nil append_assoc)
    then show ?thesis using q True by simp
  next
    case False
    then have "D @ [sep] @ t = (replicate i sep @ sep_join S) @ [sep] @ t"
      using p by (simp add: sep_join_snoc)
    then have "D @ [sep] = (replicate i sep @ sep_join S) @ [sep]"
      by (simp only: append_assoc [symmetric] append_same_eq)
    then have d: "D = replicate i sep @ sep_join S"
      by simp
    have "sep_join (S @ [''scripts'', n]) = sep_join S @ sep # ''scripts'' @ sep # n"
      by (rule sep_join_snoc2 [OF False])
    then show ?thesis using q d by simp
  qed
qed

section \<open>The descriptor and a script path, joined to the working directory\<close>

lemma basename_no_sep: "sep \<notin> set f \<Longrightarrow> basename f = f"
  by (simp add: basename_def rfind_absent)

lemma join_step_cwd:
  assumes "c \<noteq> []" "\<not> startswith p sep"
  shows "join_step c p = (if last c = sep then butlast c else c) @ sep # p"
proof (cases "last c = sep")
  case True
  then have "c = butlast c @ [sep]"
    using assms(1) by (metis append_butlast_last_id)
  then have "c @ p = butlast c @ sep # p"
    by (metis append_Cons append_Nil append_assoc)
  then show ?thesis
    using True assms by (simp add: join_step_relative)
next
  case False
  then show ?thesis using assms by (simp add: join_step_relative)
qed

lemma invoked_path_def_rel:
  "\<not> startswith p sep \<Longrightarrow> (if startswith p sep then p else join c [p]) = join_step c p"
  by (simp add: join_one)

lemma invocation_shape:
  assumes c: "c \<noteq> []" and b: "basename f = t" and t: "t \<noteq> []" and y: "y \<noteq> sep"
  shows "\<exists>Y Y'.
     (if startswith f sep then f else join c [f]) = Y @ sep # t \<and>
     (if startswith (u_path f (y # r)) sep then u_path f (y # r)
      else join c [u_path f (y # r)]) = Y' @ sep # y # r \<and>
     initial_slashes (Y' @ sep # y # r) = initial_slashes (Y @ sep # t) \<and>
     (\<forall>i. foldl (norm_step i) [] (split_sep Y') = foldl (norm_step i) [] (split_sep Y))"
proof (cases "sep \<in> set f")
  case False
  then have ft: "f = t" using b basename_no_sep by simp
  obtain tx tr where tx: "t = tx # tr" using t by (cases t) auto
  have txs: "tx \<noteq> sep" using False ft tx by auto
  have frel: "\<not> startswith f sep" using False by (rule no_sep_relative)
  have yrel: "\<not> startswith (y # r) sep" using y by (simp add: startswith_def)
  have up: "u_path f (y # r) = y # r"
    using dirname_no_sep [OF False] by (rule u_path_empty_dir)
  define Y where "Y = (if last c = sep then butlast c else c)"
  have P: "(if startswith f sep then f else join c [f]) = Y @ sep # t"
    using frel join_step_cwd [OF c frel] by (simp add: join_one Y_def ft)
  have Q: "(if startswith (u_path f (y # r)) sep then u_path f (y # r)
      else join c [u_path f (y # r)]) = Y @ sep # y # r"
    unfolding up using yrel join_step_cwd [OF c yrel] by (simp add: join_one Y_def)
  have "initial_slashes ((Y @ [sep]) @ y # r) = initial_slashes ((Y @ [sep]) @ tx # tr)"
    by (rule initial_slashes_cong [OF y txs])
  then have I: "initial_slashes (Y @ sep # y # r) = initial_slashes (Y @ sep # t)"
    by (simp add: tx)
  show ?thesis using P Q I by blast
next
  case True
  then obtain h t' where ht: "f = h @ sep # t'" "sep \<notin> set t'"
    by (meson split_list_last)
  have tt: "t' = t" using b basename_at_last_sep [OF ht(2), of h] ht(1) by simp
  obtain tx tr where tx: "t = tx # tr" using t by (cases t) auto
  have txs: "tx \<noteq> sep" using ht(2) tt tx by auto
  have yrel: "\<not> startswith (y # r) sep" using y by (simp add: startswith_def)
  show ?thesis
  proof (cases "startswith f sep")
    case abs: True
    have P: "(if startswith f sep then f else join c [f]) = h @ sep # t"
      using abs ht(1) tt by simp
    have hdh: "h \<noteq> [] \<Longrightarrow> hd h = sep"
      using abs ht(1) by (simp add: startswith_def)
    have d: "dirname f =
       (if h @ [sep] \<noteq> replicate (Suc (length h)) sep then rstrip sep h else h @ [sep])"
      unfolding ht(1) by (rule dirname_at_last_sep [OF ht(2)])
    show ?thesis
    proof (cases "h @ [sep] \<noteq> replicate (Suc (length h)) sep")
      case False
      then have dd: "dirname f = h @ [sep]" using d by simp
      have g: "u_path f (y # r) = h @ sep # y # r"
        using yrel by (simp add: u_path_def dd join_one join_step_relative)
      have "hd (h @ [sep]) = sep" using hdh by (cases h) simp_all
      then have "startswith (u_path f (y # r)) sep"
        unfolding g by (cases h) (simp_all add: startswith_def)
      then have Q: "(if startswith (u_path f (y # r)) sep then u_path f (y # r)
          else join c [u_path f (y # r)]) = h @ sep # y # r"
        using g by simp
      have "initial_slashes ((h @ [sep]) @ y # r) = initial_slashes ((h @ [sep]) @ tx # tr)"
        by (rule initial_slashes_cong [OF y txs])
      then have I: "initial_slashes (h @ sep # y # r) = initial_slashes (h @ sep # t)"
        by (simp add: tx)
      show ?thesis using P Q I by blast
    next
      case True
      let ?r = "rstrip sep h"
      have rne: "?r \<noteq> []" using True by (rule rstrip_not_all)
      have rl: "last ?r \<noteq> sep" using rne by (rule rstrip_last)
      obtain k where k: "h = ?r @ replicate k sep" using rstrip_decomp by blast
      have hne: "h \<noteq> []" using rne rstrip_nil by metis
      have rh: "hd ?r = sep" using rstrip_hd_same [OF rne] hdh [OF hne] by simp
      have dd: "dirname f = ?r" using d True by simp
      have g: "u_path f (y # r) = ?r @ sep # y # r"
        using yrel rne rl by (simp add: u_path_def dd join_one join_step_relative)
      have "startswith (u_path f (y # r)) sep"
        unfolding g using rne rh by (simp add: startswith_def)
      then have Q: "(if startswith (u_path f (y # r)) sep then u_path f (y # r)
          else join c [u_path f (y # r)]) = ?r @ sep # y # r"
        using g by simp
      have S: "foldl (norm_step i) [] (split_sep ?r) = foldl (norm_step i) [] (split_sep h)"
        for i
        by (subst (2) k) (rule norm_fold_trailing [symmetric])
      have rb: "?r = butlast ?r @ [last ?r]" using rne by simp
      have e1: "butlast ?r @ last ?r # (sep # y # r) = ?r @ sep # y # r"
        using rb by (metis append_Cons append_Nil append_assoc)
      have e2: "butlast ?r @ last ?r # (replicate k sep @ sep # t) = h @ sep # t"
        using rb k by (metis append_Cons append_Nil append_assoc)
      have I: "initial_slashes (?r @ sep # y # r) = initial_slashes (h @ sep # t)"
        using initial_slashes_cong [OF rl rl, of "butlast ?r" "sep # y # r"
            "replicate k sep @ sep # t"]
        unfolding e1 e2 .
      show ?thesis using P Q I S by blast
    qed
  next
    case rel: False
    let ?r = "rstrip sep h"
    have dr: "dirname f = ?r" "?r \<noteq> []" "hd ?r \<noteq> sep" "last ?r \<noteq> sep"
      using dirname_relative [OF rel [unfolded ht(1)] ht(2)] ht(1) by simp_all
    obtain k where k: "h = ?r @ replicate k sep" using rstrip_decomp by blast
    have g: "u_path f (y # r) = ?r @ sep # y # r"
      using yrel dr by (simp add: u_path_def join_one join_step_relative)
    have grel: "\<not> startswith (u_path f (y # r)) sep"
      unfolding g using dr by (simp add: startswith_def)
    define C where "C = (if last c = sep then butlast c else c) @ [sep]"
    have P: "(if startswith f sep then f else join c [f]) = (C @ h) @ sep # t"
      using rel join_step_cwd [OF c rel] by (simp add: join_one C_def ht(1) tt)
    have Q: "(if startswith (u_path f (y # r)) sep then u_path f (y # r)
          else join c [u_path f (y # r)]) = (C @ ?r) @ sep # y # r"
      using grel join_step_cwd [OF c grel] by (simp add: join_one C_def g)
    have "C @ h = (C @ ?r) @ replicate k sep" using k by simp
    then have S: "foldl (norm_step i) [] (split_sep (C @ ?r)) =
        foldl (norm_step i) [] (split_sep (C @ h))" for i
      by (simp only: norm_fold_trailing)
    have rb: "?r = butlast ?r @ [last ?r]" using dr(2) by simp
    have e1: "(C @ butlast ?r) @ last ?r # (sep # y # r) = (C @ ?r) @ sep # y # r"
      using rb by (metis append_Cons append_Nil append_assoc)
    have e2: "(C @ butlast ?r) @ last ?r # (replicate k sep @ sep # t) = (C @ h) @ sep # t"
      using rb k by (metis append_Cons append_Nil append_assoc)
    have I: "initial_slashes ((C @ ?r) @ sep # y # r) = initial_slashes ((C @ h) @ sep # t)"
      using initial_slashes_cong [OF dr(4) dr(4), of "C @ butlast ?r" "sep # y # r"
          "replicate k sep @ sep # t"]
      unfolding e1 e2 .
    show ?thesis using P Q I S by blast
  qed
qed

lemma basename_sep_free: "sep \<notin> set (basename f)"
proof (cases "sep \<in> set f")
  case False
  then show ?thesis by (simp add: basename_no_sep)
next
  case True
  then obtain h t where ht: "f = h @ sep # t" "sep \<notin> set t"
    by (meson split_list_last)
  then show ?thesis using basename_at_last_sep [OF ht(2), of h] by simp
qed

lemma abspath_script:
  assumes c: "c \<noteq> []" and b: "basename f = t"
    and t: "t \<noteq> []" "t \<noteq> ''.''" "t \<noteq> ''..''"
    and n: "sep \<notin> set n" "n \<noteq> []" "n \<noteq> ''.''" "n \<noteq> ''..''"
    and hyp: "abspath c f = D @ sep # t"
  shows "abspath c (u_path f (join ''scripts'' [n])) = D @ sep # ''scripts'' @ sep # n"
proof -
  have ts: "sep \<notin> set t" using basename_sep_free [of f] b by simp
  have s: "CHR ''s'' \<noteq> sep" by (simp add: sep_def)
  obtain Y Y' where
    P: "(if startswith f sep then f else join c [f]) = Y @ sep # t" and
    Q: "(if startswith (u_path f (CHR ''s'' # (''cripts'' @ sep # n))) sep
         then u_path f (CHR ''s'' # (''cripts'' @ sep # n))
         else join c [u_path f (CHR ''s'' # (''cripts'' @ sep # n))]) =
        Y' @ sep # CHR ''s'' # (''cripts'' @ sep # n)" and
    I: "initial_slashes (Y' @ sep # CHR ''s'' # (''cripts'' @ sep # n)) =
        initial_slashes (Y @ sep # t)" and
    S: "\<forall>i. foldl (norm_step i) [] (split_sep Y') = foldl (norm_step i) [] (split_sep Y)"
    using invocation_shape [OF c b t(1) s, of "''cripts'' @ sep # n"] by blast
  have e: "CHR ''s'' # (''cripts'' @ sep # n) = ''scripts'' @ sep # n"
    by simp
  have np: "normpath (Y @ sep # t) = D @ sep # t"
    using hyp P by (simp add: abspath_def)
  have "normpath (Y' @ sep # ''scripts'' @ sep # n) = D @ sep # ''scripts'' @ sep # n"
  proof (rule normpath_pair [OF ts t n _ _ np])
    show "initial_slashes (Y' @ sep # ''scripts'' @ sep # n) = initial_slashes (Y @ sep # t)"
      using I unfolding e .
    show "foldl (norm_step i) [] (split_sep Y') = foldl (norm_step i) [] (split_sep Y)" for i
      using S by blast
  qed
  moreover have "abspath c (u_path f (join ''scripts'' [n])) =
      normpath (Y' @ sep # ''scripts'' @ sep # n)"
    unfolding abspath_def scripts_component [OF n(1)] Q [unfolded e] ..
  ultimately show ?thesis by simp
qed

lemma script_names_plain:
  "''multipip'' \<noteq> [] \<and> ''multipip'' \<noteq> ''.'' \<and> ''multipip'' \<noteq> ''..''"
  "''pip-download'' \<noteq> [] \<and> ''pip-download'' \<noteq> ''.'' \<and> ''pip-download'' \<noteq> ''..''"
  "''py2rpm'' \<noteq> [] \<and> ''py2rpm'' \<noteq> ''.'' \<and> ''py2rpm'' \<noteq> ''..''"
  "''specprint'' \<noteq> [] \<and> ''specprint'' \<noteq> ''.'' \<and> ''specprint'' \<noteq> ''..''"
  "''yyoom'' \<noteq> [] \<and> ''yyoom'' \<noteq> ''.'' \<and> ''yyoom'' \<noteq> ''..''"
  by simp_all

lemma abspath_scripts:
  assumes "c \<noteq> []" "basename f = t" "t \<noteq> []" "t \<noteq> ''.''" "t \<noteq> ''..''"
    and "abspath c f = D @ sep # t"
  shows "map (abspath c) (scripts (setup_args f)) =
     [D @ sep # ''scripts'' @ sep # ''multipip'',
      D @ sep # ''scripts'' @ sep # ''pip-download'',
      D @ sep # ''scripts'' @ sep # ''py2rpm'',
      D @ sep # ''scripts'' @ sep # ''specprint'',
      D @ sep # ''scripts'' @ sep # ''yyoom'']"
proof -
  have a: "sep \<notin> set n \<Longrightarrow> n \<noteq> [] \<and> n \<noteq> ''.'' \<and> n \<noteq> ''..'' \<Longrightarrow>
      abspath c (u_path f (join ''scripts'' [n])) = D @ sep # ''scripts'' @ sep # n" for n
    using abspath_script [OF assms(1-5) _ _ _ _ assms(6), of n] by blast
  show ?thesis
    by (simp only: setup_args_def descriptor.simps list.map
        a [OF script_names_no_sep(1) script_names_plain(1)]
        a [OF script_names_no_sep(2) script_names_plain(2)]
        a [OF script_names_no_sep(3) script_names_plain(3)]
        a [OF script_names_no_sep(4) script_names_plain(4)]
        a [OF script_names_no_sep(5) script_names_plain(5)])
qed

section \<open>Script paths resolve below the descriptor's directory\<close>

lemma invoked_absolute:
  assumes "startswith c sep"
  shows "startswith (if startswith f sep then f else join c [f]) sep"
proof (cases "startswith f sep")
  case True
  then show ?thesis by simp
next
  case False
  have c: "c \<noteq> []" "hd c = sep" using assms by (simp_all add: startswith_def)
  then show ?thesis
    using False by (auto simp: join_one join_step_relative startswith_def)
qed

lemma initial_slashes_absolute: "startswith p sep \<Longrightarrow> 0 < initial_slashes p"
  by (simp add: initial_slashes_def)

lemma abspath_form:
  assumes c: "startswith c sep" and b: "basename f = t"
    and t: "t \<noteq> []" "t \<noteq> ''.''" "t \<noteq> ''..''"
  shows "\<exists>D. abspath c f = D @ sep # t"
proof -
  have ts: "sep \<notin> set t" using basename_sep_free [of f] b by simp
  have cne: "c \<noteq> []" using c by (simp add: startswith_def)
  have s: "CHR ''s'' \<noteq> sep" by (simp add: sep_def)
  obtain Y where P: "(if startswith f sep then f else join c [f]) = Y @ sep # t"
    using invocation_shape [OF cne b t(1) s, of "[]"] by blast
  define i where "i = initial_slashes (Y @ sep # t)"
  define S where "S = foldl (norm_step i) [] (split_sep Y)"
  have "0 < i"
    using invoked_absolute [OF c, of f] P initial_slashes_absolute by (simp add: i_def)
  then obtain j where j: "i = Suc j" by (cases i) auto
  have np: "abspath c f = replicate i sep @ sep_join (S @ [t])"
    using normpath_file [OF ts t, of Y] P by (simp add: abspath_def i_def S_def)
  show ?thesis
  proof (cases "S = []")
    case True
    have "replicate (Suc j) sep @ t = replicate j sep @ sep # t"
      by (simp add: replicate_append_same)
    then show ?thesis using np True j by simp
  next
    case False
    then have "abspath c f = (replicate i sep @ sep_join S) @ sep # t"
      using np by (simp add: sep_join_snoc)
    then show ?thesis by blast
  qed
qed

text \<open>
  Claim C1. The script paths handed to the build tool are taken below the descriptor
  file's own directory, not below the working directory. Let the descriptor's path, as
  \<^verbatim>\<open>__file__\<close> spells it, end in the file name \<open>t\<close>, and let its absolute
  normalised path be \<open>D/t\<close>. Then, from every non-empty working directory \<open>c\<close> and
  for every such spelling of \<^verbatim>\<open>__file__\<close> (relative, absolute, with \<^verbatim>\<open>.\<close>,
  \<^verbatim>\<open>..\<close> or doubled separators), the five script paths have the absolute normalised
  paths \<open>D/scripts/multipip\<close>, \<open>D/scripts/pip-download\<close>, \<open>D/scripts/py2rpm\<close>,
  \<open>D/scripts/specprint\<close> and \<open>D/scripts/yyoom\<close>: the same files wherever the
  invocation is made from.
\<close>

theorem scripts_resolve_below_descriptor_directory:
  assumes "c \<noteq> []" "basename f = t" "t \<noteq> []" "t \<noteq> ''.''" "t \<noteq> ''..''"
    and "abspath c f = D @ ''/'' @ t"
  shows "map (abspath c) (scripts (setup_args f)) =
     [D @ ''/scripts/multipip'', D @ ''/scripts/pip-download'', D @ ''/scripts/py2rpm'',
      D @ ''/scripts/specprint'', D @ ''/scripts/yyoom'']"
proof -
  have "abspath c f = D @ sep # t" using assms(6) by (simp add: sep_def)
  then show ?thesis
    using abspath_scripts [OF assms(1-5)] by (simp add: sep_def)
qed

theorem scripts_resolve_below_descriptor_directory_witness:
  "''/home/u/pkg/sub'' \<noteq> [] \<and> basename ''../setup.py'' = ''setup.py'' \<and>
   ''/home/u'' \<noteq> [] \<and> basename ''pkg/setup.py'' = ''setup.py'' \<and>
   ''setup.py'' \<noteq> [] \<and> ''setup.py'' \<noteq> ''.'' \<and> ''setup.py'' \<noteq> ''..'' \<and>
   abspath ''/home/u/pkg/sub'' ''../setup.py'' = ''/home/u/pkg'' @ ''/'' @ ''setup.py'' \<and>
   abspath ''/home/u'' ''pkg/setup.py'' = ''/home/u/pkg'' @ ''/'' @ ''setup.py'' \<and>
   map (abspath ''/home/u/pkg/sub'') (scripts (setup_args ''../setup.py'')) =
     [''/home/u/pkg/scripts/multipip'', ''/home/u/pkg/scripts/pip-download'',
      ''/home/u/pkg/scripts/py2rpm'', ''/home/u/pkg/scripts/specprint'',
      ''/home/u/pkg/scripts/yyoom''] \<and>
   map (abspath ''/home/u'') (scripts (setup_args ''pkg/setup.py'')) =
     [''/home/u/pkg/scripts/multipip'', ''/home/u/pkg/scripts/pip-download'',
      ''/home/u/pkg/scripts/py2rpm'', ''/home/u/pkg/scripts/specprint'',
      ''/home/u/pkg/scripts/yyoom'']"
proof -
  have b1: "basename ''../setup.py'' = ''setup.py''"
    by (simp add: basename_def sep_def Let_def)
  have b2: "basename ''pkg/setup.py'' = ''setup.py''"
    by (simp add: basename_def sep_def Let_def)
  have a1: "abspath ''/home/u/pkg/sub'' ''../setup.py'' = ''/home/u/pkg'' @ ''/'' @ ''setup.py''"
    by (simp add: abspath_def normpath_def initial_slashes_def norm_step_def join_def
        join_step_def startswith_def endswith_def sep_def Let_def)
  have a2: "abspath ''/home/u'' ''pkg/setup.py'' = ''/home/u/pkg'' @ ''/'' @ ''setup.py''"
    by (simp add: abspath_def normpath_def initial_slashes_def norm_step_def join_def
        join_step_def startswith_def endswith_def sep_def Let_def)
  have n: "''setup.py'' \<noteq> []" "''setup.py'' \<noteq> ''.''" "''setup.py'' \<noteq> ''..''"
    by simp_all
  have c: "''/home/u/pkg/sub'' \<noteq> []" "''/home/u'' \<noteq> []"
    by simp_all
  show ?thesis
    using scripts_resolve_below_descriptor_directory [OF c(1) b1 n a1]
      scripts_resolve_below_descriptor_directory [OF c(2) b2 n a2]
      b1 b2 a1 a2
    by simp
qed

text \<open>
  Claim C5, as stated: any two evaluations with the same descriptor file location
  produce the identical record, computed script paths included. The descriptor
  \<^verbatim>\<open>/home/u/pkg/setup.py\<close>, evaluated as \<^verbatim>\<open>pkg/setup.py\<close> from
  \<^verbatim>\<open>/home/u\<close> and as \<^verbatim>\<open>setup.py\<close> from \<^verbatim>\<open>/home/u/pkg\<close>, yields two
  records whose script paths differ.
\<close>

theorem same_location_different_record_counterexample:
  "abspath ''/home/u'' ''pkg/setup.py'' = ''/home/u/pkg/setup.py'' \<and>
   abspath ''/home/u/pkg'' ''setup.py'' = ''/home/u/pkg/setup.py'' \<and>
   scripts (setup_args ''pkg/setup.py'') =
     [''pkg/scripts/multipip'', ''pkg/scripts/pip-download'', ''pkg/scripts/py2rpm'',
      ''pkg/scripts/specprint'', ''pkg/scripts/yyoom''] \<and>
   scripts (setup_args ''setup.py'') =
     [''scripts/multipip'', ''scripts/pip-download'', ''scripts/py2rpm'',
      ''scripts/specprint'', ''scripts/yyoom''] \<and>
   setup_args ''pkg/setup.py'' \<noteq> setup_args ''setup.py''"
proof -
  have a1: "abspath ''/home/u'' ''pkg/setup.py'' = ''/home/u/pkg/setup.py''"
    by (simp add: abspath_def normpath_def initial_slashes_def norm_step_def join_def
        join_step_def startswith_def endswith_def sep_def Let_def)
  have a2: "abspath ''/home/u/pkg'' ''setup.py'' = ''/home/u/pkg/setup.py''"
    by (simp add: abspath_def normpath_def initial_slashes_def norm_step_def join_def
        join_step_def startswith_def endswith_def sep_def Let_def)
  have s1: "scripts (setup_args ''pkg/setup.py'') =
     [''pkg/scripts/multipip'', ''pkg/scripts/pip-download'', ''pkg/scripts/py2rpm'',
      ''pkg/scripts/specprint'', ''pkg/scripts/yyoom'']"
    by (simp add: setup_args_def u_path_def dirname_def rstrip_def join_def join_step_def
        startswith_def endswith_def sep_def Let_def)
  have s2: "scripts (setup_args ''setup.py'') =
     [''scripts/multipip'', ''scripts/pip-download'', ''scripts/py2rpm'',
      ''scripts/specprint'', ''scripts/yyoom'']"
    by (simp add: setup_args_def u_path_def dirname_def rstrip_def join_def join_step_def
        startswith_def endswith_def sep_def Let_def)
  have "scripts (setup_args ''pkg/setup.py'') \<noteq> scripts (setup_args ''setup.py'')"
    unfolding s1 s2 by simp
  then have "setup_args ''pkg/setup.py'' \<noteq> setup_args ''setup.py''"
    by metis
  then show ?thesis using a1 a2 s1 s2 by blast
qed

text \<open>
  Claim C5, amended. Every field of the record other than the script paths is the
  declared literal, the same for every value of \<^verbatim>\<open>__file__\<close>. For two evaluations
  of the same descriptor file, made from absolute working directories under spellings of
  \<^verbatim>\<open>__file__\<close> that end in a file name and have the same absolute normalised path
  \<open>D/t\<close>, the script paths, which may differ as strings, have the same absolute
  normalised paths \<open>D/scripts/name\<close>.
\<close>

theorem same_descriptor_same_resolved_record:
  "(setup_args f1)\<lparr>scripts := []\<rparr> =
     \<lparr> name = ''packtools'', version = ''0.0.1'', description = ''Packaging toolbelt'',
       author = ''OpenStack Foundation'',
       author_email = ''openstack-dev@lists.openstack.org'',
       url = ''https://github.com/harlowja/packtools/'',
       scripts = [],
       install_requires = [''argparse'', ''pip>=1.3'', ''six>=1.4.1''],
       classifiers =
         [''Development Status :: 4 - Beta'', ''Topic :: Utilities'',
          ''Operating System :: POSIX :: Linux'', ''Programming Language :: Python''],
       keywords_field = ''packaging rpm pip yum specfile'' \<rparr> \<and>
   (setup_args f2)\<lparr>scripts := []\<rparr> = (setup_args f1)\<lparr>scripts := []\<rparr> \<and>
   (startswith c1 sep \<and> startswith c2 sep \<and>
    basename f1 \<noteq> [] \<and> basename f1 \<noteq> ''.'' \<and> basename f1 \<noteq> ''..'' \<and>
    basename f2 \<noteq> [] \<and> basename f2 \<noteq> ''.'' \<and> basename f2 \<noteq> ''..'' \<and>
    abspath c1 f1 = abspath c2 f2 \<longrightarrow>
    (\<exists>D. abspath c1 f1 = D @ ''/'' @ basename f1 \<and>
         abspath c2 f2 = D @ ''/'' @ basename f2 \<and>
         map (abspath c1) (scripts (setup_args f1)) =
           [D @ ''/scripts/multipip'', D @ ''/scripts/pip-download'', D @ ''/scripts/py2rpm'',
            D @ ''/scripts/specprint'', D @ ''/scripts/yyoom''] \<and>
         map (abspath c2) (scripts (setup_args f2)) =
           [D @ ''/scripts/multipip'', D @ ''/scripts/pip-download'', D @ ''/scripts/py2rpm'',
            D @ ''/scripts/specprint'', D @ ''/scripts/yyoom'']))"
proof -
  have lit: "(setup_args f1)\<lparr>scripts := []\<rparr> =
     \<lparr> name = ''packtools'', version = ''0.0.1'', description = ''Packaging toolbelt'',
       author = ''OpenStack Foundation'',
       author_email = ''openstack-dev@lists.openstack.org'',
       url = ''https://github.com/harlowja/packtools/'',
       scripts = [],
       install_requires = [''argparse'', ''pip>=1.3'', ''six>=1.4.1''],
       classifiers =
         [''Development Status :: 4 - Beta'', ''Topic :: Utilities'',
          ''Operating System :: POSIX :: Linux'', ''Programming Language :: Python''],
       keywords_field = ''packaging rpm pip yum specfile'' \<rparr>"
    by (simp add: setup_args_def)
  have same: "(setup_args f2)\<lparr>scripts := []\<rparr> = (setup_args f1)\<lparr>scripts := []\<rparr>"
    by (simp add: setup_args_def)
  have res: "\<exists>D. abspath c1 f1 = D @ ''/'' @ basename f1 \<and>
         abspath c2 f2 = D @ ''/'' @ basename f2 \<and>
         map (abspath c1) (scripts (setup_args f1)) =
           [D @ ''/scripts/multipip'', D @ ''/scripts/pip-download'', D @ ''/scripts/py2rpm'',
            D @ ''/scripts/specprint'', D @ ''/scripts/yyoom''] \<and>
         map (abspath c2) (scripts (setup_args f2)) =
           [D @ ''/scripts/multipip'', D @ ''/scripts/pip-download'', D @ ''/scripts/py2rpm'',
            D @ ''/scripts/specprint'', D @ ''/scripts/yyoom'']"
    if h: "startswith c1 sep \<and> startswith c2 sep \<and>
      basename f1 \<noteq> [] \<and> basename f1 \<noteq> ''.'' \<and> basename f1 \<noteq> ''..'' \<and>
      basename f2 \<noteq> [] \<and> basename f2 \<noteq> ''.'' \<and> basename f2 \<noteq> ''..'' \<and>
      abspath c1 f1 = abspath c2 f2"
  proof -
    from h have c: "startswith c1 sep" "startswith c2 sep"
      and t1: "basename f1 \<noteq> []" "basename f1 \<noteq> ''.''" "basename f1 \<noteq> ''..''"
      and t2: "basename f2 \<noteq> []" "basename f2 \<noteq> ''.''" "basename f2 \<noteq> ''..''"
      and eq: "abspath c1 f1 = abspath c2 f2"
      by simp_all
    have cne: "c1 \<noteq> []" "c2 \<noteq> []" using c by (simp_all add: startswith_def)
    obtain D1 where D1: "abspath c1 f1 = D1 @ sep # basename f1"
      using abspath_form [OF c(1) refl t1] by blast
    obtain D2 where D2: "abspath c2 f2 = D2 @ sep # basename f2"
      using abspath_form [OF c(2) refl t2] by blast
    have "basename (D1 @ sep # basename f1) = basename (D2 @ sep # basename f2)"
      using D1 D2 eq by simp
    then have bb: "basename f1 = basename f2"
      by (simp add: basename_at_last_sep [OF basename_sep_free])
    then have "D1 = D2" using D1 D2 eq by simp
    then have D2': "abspath c2 f2 = D1 @ sep # basename f2" using D2 by simp
    have a: "abspath c1 f1 = D1 @ ''/'' @ basename f1" using D1 by (simp add: sep_def)
    have b: "abspath c2 f2 = D1 @ ''/'' @ basename f2" using D2' by (simp add: sep_def)
    have l1: "map (abspath c1) (scripts (setup_args f1)) =
           [D1 @ ''/scripts/multipip'', D1 @ ''/scripts/pip-download'', D1 @ ''/scripts/py2rpm'',
            D1 @ ''/scripts/specprint'', D1 @ ''/scripts/yyoom'']"
      unfolding abspath_scripts [OF cne(1) refl t1 D1] by (simp add: sep_def)
    have l2: "map (abspath c2) (scripts (setup_args f2)) =
           [D1 @ ''/scripts/multipip'', D1 @ ''/scripts/pip-download'', D1 @ ''/scripts/py2rpm'',
            D1 @ ''/scripts/specprint'', D1 @ ''/scripts/yyoom'']"
      unfolding abspath_scripts [OF cne(2) refl t2 D2'] by (simp add: sep_def)
    show ?thesis
      by (intro exI conjI) (rule a, rule b, rule l1, rule l2)
  qed
  show ?thesis
    by (intro conjI impI) (rule lit, rule same, erule res)
qed

theorem same_descriptor_same_resolved_record_witness:
  "startswith ''/home/u'' sep \<and> startswith ''/home/u/pkg/sub'' sep \<and>
   basename ''pkg/setup.py'' = ''setup.py'' \<and> basename ''../setup.py'' = ''setup.py'' \<and>
   abspath ''/home/u'' ''pkg/setup.py'' = ''/home/u/pkg/setup.py'' \<and>
   abspath ''/home/u/pkg/sub'' ''../setup.py'' = ''/home/u/pkg/setup.py'' \<and>
   scripts (setup_args ''pkg/setup.py'') \<noteq> scripts (setup_args ''../setup.py'') \<and>
   map (abspath ''/home/u'') (scripts (setup_args ''pkg/setup.py'')) =
     [''/home/u/pkg/scripts/multipip'', ''/home/u/pkg/scripts/pip-download'',
      ''/home/u/pkg/scripts/py2rpm'', ''/home/u/pkg/scripts/specprint'',
      ''/home/u/pkg/scripts/yyoom''] \<and>
   map (abspath ''/home/u/pkg/sub'') (scripts (setup_args ''../setup.py'')) =
     [''/home/u/pkg/scripts/multipip'', ''/home/u/pkg/scripts/pip-download'',
      ''/home/u/pkg/scripts/py2rpm'', ''/home/u/pkg/scripts/specprint'',
      ''/home/u/pkg/scripts/yyoom'']"
proof -
  have c: "startswith ''/home/u'' sep" "startswith ''/home/u/pkg/sub'' sep"
    by (simp_all add: startswith_def sep_def)
  have b1: "basename ''pkg/setup.py'' = ''setup.py''"
    by (simp add: basename_def sep_def Let_def)
  have b2: "basename ''../setup.py'' = ''setup.py''"
    by (simp add: basename_def sep_def Let_def)
  have a1: "abspath ''/home/u'' ''pkg/setup.py'' = ''/home/u/pkg/setup.py''"
    by (simp add: abspath_def normpath_def initial_slashes_def norm_step_def join_def
        join_step_def startswith_def endswith_def sep_def Let_def)
  have a2: "abspath ''/home/u/pkg/sub'' ''../setup.py'' = ''/home/u/pkg/setup.py''"
    by (simp add: abspath_def normpath_def initial_slashes_def norm_step_def join_def
        join_step_def startswith_def endswith_def sep_def Let_def)
  have ne: "scripts (setup_args ''pkg/setup.py'') \<noteq> scripts (setup_args ''../setup.py'')"
    by (simp add: setup_args_def u_path_def dirname_def rstrip_def join_def join_step_def
        startswith_def endswith_def sep_def Let_def)
  have n: "''setup.py'' \<noteq> []" "''setup.py'' \<noteq> ''.''" "''setup.py'' \<noteq> ''..''"
    by simp_all
  have hyp: "startswith ''/home/u'' sep \<and> startswith ''/home/u/pkg/sub'' sep \<and>
    basename ''pkg/setup.py'' \<noteq> [] \<and> basename ''pkg/setup.py'' \<noteq> ''.'' \<and>
    basename ''pkg/setup.py'' \<noteq> ''..'' \<and>
    basename ''../setup.py'' \<noteq> [] \<and> basename ''../setup.py'' \<noteq> ''.'' \<and>
    basename ''../setup.py'' \<noteq> ''..'' \<and>
    abspath ''/home/u'' ''pkg/setup.py'' = abspath ''/home/u/pkg/sub'' ''../setup.py''"
    unfolding b1 b2 a1 a2 using c n by (intro conjI) simp_all
  note w = same_descriptor_same_resolved_record
      [of "''pkg/setup.py''" "''../setup.py''" "''/home/u''" "''/home/u/pkg/sub''",
        THEN conjunct2, THEN conjunct2, THEN mp, OF hyp]
  obtain D where D: "abspath ''/home/u'' ''pkg/setup.py'' = D @ ''/'' @ basename ''pkg/setup.py''"
    and l1: "map (abspath ''/home/u'') (scripts (setup_args ''pkg/setup.py'')) =
           [D @ ''/scripts/multipip'', D @ ''/scripts/pip-download'', D @ ''/scripts/py2rpm'',
            D @ ''/scripts/specprint'', D @ ''/scripts/yyoom'']"
    and l2: "map (abspath ''/home/u/pkg/sub'') (scripts (setup_args ''../setup.py'')) =
           [D @ ''/scripts/multipip'', D @ ''/scripts/pip-download'', D @ ''/scripts/py2rpm'',
            D @ ''/scripts/specprint'', D @ ''/scripts/yyoom'']"
    using w by (elim exE conjE)
  have "D @ ''/setup.py'' = ''/home/u/pkg'' @ ''/setup.py''"
    using D unfolding a1 b1 by simp
  then have d: "D = ''/home/u/pkg''"
    by (rule append_same_eq [THEN iffD1])
  have g1: "map (abspath ''/home/u'') (scripts (setup_args ''pkg/setup.py'')) =
     [''/home/u/pkg/scripts/multipip'', ''/home/u/pkg/scripts/pip-download'',
      ''/home/u/pkg/scripts/py2rpm'', ''/home/u/pkg/scripts/specprint'',
      ''/home/u/pkg/scripts/yyoom'']"
    unfolding l1 d by simp
  have g2: "map (abspath ''/home/u/pkg/sub'') (scripts (setup_args ''../setup.py'')) =
     [''/home/u/pkg/scripts/multipip'', ''/home/u/pkg/scripts/pip-download'',
      ''/home/u/pkg/scripts/py2rpm'', ''/home/u/pkg/scripts/specprint'',
      ''/home/u/pkg/scripts/yyoom'']"
    unfolding l2 d by simp
  show ?thesis
    by (intro conjI) (rule c(1), rule c(2), rule b1, rule b2, rule a1, rule a2, rule ne,
        rule g1, rule g2)
qed

section \<open>The scripts subdirectory\<close>

lemma dirname_of_file_in_dir:
  assumes "sep \<notin> set t" "d \<noteq> []" "last d \<noteq> sep"
  shows "dirname (d @ sep # t) = d"
proof -
  have na: "d @ [sep] \<noteq> replicate (Suc (length d)) sep"
    using all_sep_last [OF assms(2)] assms(3) by blast
  show ?thesis
    using dirname_at_last_sep [OF assms(1), of d] na rstrip_keeps [OF assms(2,3)] by simp
qed

lemma dirname_of_file_in_root:
  assumes "sep \<notin> set t"
  shows "dirname (sep # t) = [sep]"
  using dirname_at_last_sep [OF assms, of "[]"] by simp

lemma join_scripts_dir:
  assumes "d \<noteq> []" "last d \<noteq> sep"
  shows "join d [''scripts''] = d @ sep # ''scripts''"
  using assms scripts_component_relative [of "[]"]
  by (simp add: join_one join_step_relative)

lemma join_scripts_root: "join [sep] [''scripts''] = sep # ''scripts''"
  using scripts_component_relative [of "[]"]
  by (simp add: join_one join_step_relative)

lemma join_scripts_empty: "join [] [''scripts''] = ''scripts''"
  using scripts_component_relative [of "[]"]
  by (simp add: join_one join_step_relative)

text \<open>
  Claim C9. Every entry of the scripts sequence is
  \<^verbatim>\<open>join(dirname(__file__), 'scripts', name)\<close> for its name, and the directory part
  of each of the five entries is \<^verbatim>\<open>join(dirname(__file__), 'scripts')\<close>. Spelled out:
  for a descriptor \<open>d/t\<close> in a directory \<open>d\<close> written without a trailing separator the
  entries are \<open>d/scripts/name\<close> and their directory part is \<open>d/scripts\<close>; for a
  descriptor \<open>/t\<close> in the root they are \<open>/scripts/name\<close>; for a bare file name \<open>t\<close>
  they are \<open>scripts/name\<close>.
\<close>

theorem scripts_in_scripts_subdirectory:
  "scripts (setup_args f) =
     map (\<lambda>n. join (dirname f) [''scripts'', n])
       [''multipip'', ''pip-download'', ''py2rpm'', ''specprint'', ''yyoom''] \<and>
   map dirname (scripts (setup_args f)) = replicate 5 (join (dirname f) [''scripts'']) \<and>
   (CHR ''/'' \<notin> set t \<and> d \<noteq> [] \<and> last d \<noteq> CHR ''/'' \<longrightarrow>
      scripts (setup_args (d @ ''/'' @ t)) =
        [d @ ''/scripts/multipip'', d @ ''/scripts/pip-download'', d @ ''/scripts/py2rpm'',
         d @ ''/scripts/specprint'', d @ ''/scripts/yyoom''] \<and>
      map dirname (scripts (setup_args (d @ ''/'' @ t))) = replicate 5 (d @ ''/scripts'')) \<and>
   (CHR ''/'' \<notin> set t \<longrightarrow>
      scripts (setup_args (''/'' @ t)) =
        [''/scripts/multipip'', ''/scripts/pip-download'', ''/scripts/py2rpm'',
         ''/scripts/specprint'', ''/scripts/yyoom''] \<and>
      map dirname (scripts (setup_args (''/'' @ t))) = replicate 5 ''/scripts'' \<and>
      scripts (setup_args t) =
        [''scripts/multipip'', ''scripts/pip-download'', ''scripts/py2rpm'',
         ''scripts/specprint'', ''scripts/yyoom''] \<and>
      map dirname (scripts (setup_args t)) = replicate 5 ''scripts'')"
proof -
  have form: "scripts (setup_args g) =
     map (\<lambda>n. join (dirname g) [''scripts'', n])
       [''multipip'', ''pip-download'', ''py2rpm'', ''specprint'', ''yyoom'']" for g
    unfolding scripts_unfolded
    by (simp add: join_scripts_name [OF script_names_no_sep(1)]
      join_scripts_name [OF script_names_no_sep(2)] join_scripts_name [OF script_names_no_sep(3)]
      join_scripts_name [OF script_names_no_sep(4)] join_scripts_name [OF script_names_no_sep(5)])
  have dirs: "map dirname (scripts (setup_args g)) = replicate 5 (join (dirname g) [''scripts''])"
    for g
    unfolding scripts_unfolded
    by (simp add: dirname_script [OF script_names_no_sep(1)]
      dirname_script [OF script_names_no_sep(2)] dirname_script [OF script_names_no_sep(3)]
      dirname_script [OF script_names_no_sep(4)] dirname_script [OF script_names_no_sep(5)]
      numeral_eq_Suc)
  have indir: "scripts (setup_args (d @ ''/'' @ t)) =
        [d @ ''/scripts/multipip'', d @ ''/scripts/pip-download'', d @ ''/scripts/py2rpm'',
         d @ ''/scripts/specprint'', d @ ''/scripts/yyoom''] \<and>
      map dirname (scripts (setup_args (d @ ''/'' @ t))) = replicate 5 (d @ ''/scripts'')"
    if h: "CHR ''/'' \<notin> set t \<and> d \<noteq> [] \<and> last d \<noteq> CHR ''/''"
  proof -
    have a: "sep \<notin> set t" "d \<noteq> []" "last d \<noteq> sep" using h by (simp_all add: sep_def)
    have e: "d @ ''/'' @ t = d @ sep # t" by (simp add: sep_def)
    have dn: "dirname (d @ ''/'' @ t) = d"
      unfolding e by (rule dirname_of_file_in_dir [OF a])
    have s: "scripts (setup_args (d @ ''/'' @ t)) =
        [d @ ''/scripts/multipip'', d @ ''/scripts/pip-download'', d @ ''/scripts/py2rpm'',
         d @ ''/scripts/specprint'', d @ ''/scripts/yyoom'']"
      unfolding scripts_unfolded dn join_scripts_dir [OF a(2,3)] by (simp add: sep_def)
    have "map dirname (scripts (setup_args (d @ ''/'' @ t))) = replicate 5 (d @ ''/scripts'')"
      unfolding dirs dn join_scripts_dir [OF a(2,3)] by (simp add: sep_def)
    then show ?thesis using s by blast
  qed
  have inroot: "scripts (setup_args (''/'' @ t)) =
        [''/scripts/multipip'', ''/scripts/pip-download'', ''/scripts/py2rpm'',
         ''/scripts/specprint'', ''/scripts/yyoom''] \<and>
      map dirname (scripts (setup_args (''/'' @ t))) = replicate 5 ''/scripts'' \<and>
      scripts (setup_args t) =
        [''scripts/multipip'', ''scripts/pip-download'', ''scripts/py2rpm'',
         ''scripts/specprint'', ''scripts/yyoom''] \<and>
      map dirname (scripts (setup_args t)) = replicate 5 ''scripts''"
    if h: "CHR ''/'' \<notin> set t"
  proof -
    have a: "sep \<notin> set t" using h by (simp add: sep_def)
    have e: "''/'' @ t = sep # t" by (simp add: sep_def)
    have dn: "dirname (''/'' @ t) = [sep]"
      unfolding e by (rule dirname_of_file_in_root [OF a])
    have dn0: "dirname t = []" using a by (rule dirname_no_sep)
    have r1: "scripts (setup_args (''/'' @ t)) =
        [''/scripts/multipip'', ''/scripts/pip-download'', ''/scripts/py2rpm'',
         ''/scripts/specprint'', ''/scripts/yyoom'']"
      unfolding scripts_unfolded dn join_scripts_root by (simp add: sep_def)
    have r2: "map dirname (scripts (setup_args (''/'' @ t))) = replicate 5 ''/scripts''"
      unfolding dirs dn join_scripts_root by (simp add: sep_def)
    have b1: "scripts (setup_args t) =
        [''scripts/multipip'', ''scripts/pip-download'', ''scripts/py2rpm'',
         ''scripts/specprint'', ''scripts/yyoom'']"
      unfolding scripts_unfolded dn0 join_scripts_empty by (simp add: sep_def)
    have b2: "map dirname (scripts (setup_args t)) = replicate 5 ''scripts''"
      unfolding dirs dn0 join_scripts_empty by simp
    note r = r1 r2 and b = b1 b2
    show ?thesis using r b by blast
  qed
  show ?thesis using form [of f] dirs [of f] indir inroot by blast
qed

theorem scripts_in_scripts_subdirectory_witness:
  "CHR ''/'' \<notin> set ''setup.py'' \<and> ''/opt/packtools'' \<noteq> [] \<and>
   last ''/opt/packtools'' \<noteq> CHR ''/'' \<and>
   scripts (setup_args ''/opt/packtools/setup.py'') =
     [''/opt/packtools/scripts/multipip'', ''/opt/packtools/scripts/pip-download'',
      ''/opt/packtools/scripts/py2rpm'', ''/opt/packtools/scripts/specprint'',
      ''/opt/packtools/scripts/yyoom''] \<and>
   map dirname (scripts (setup_args ''/opt/packtools/setup.py'')) =
     replicate 5 ''/opt/packtools/scripts'' \<and>
   scripts (setup_args ''/setup.py'') =
     [''/scripts/multipip'', ''/scripts/pip-download'', ''/scripts/py2rpm'',
      ''/scripts/specprint'', ''/scripts/yyoom''] \<and>
   scripts (setup_args ''setup.py'') =
     [''scripts/multipip'', ''scripts/pip-download'', ''scripts/py2rpm'',
      ''scripts/specprint'', ''scripts/yyoom'']"
proof -
  have h: "CHR ''/'' \<notin> set ''setup.py''" "''/opt/packtools'' \<noteq> []"
    "last ''/opt/packtools'' \<noteq> CHR ''/''"
    by simp_all
  note w = scripts_in_scripts_subdirectory
      [of "''setup.py''" "''setup.py''" "''/opt/packtools''"]
  have c1: "scripts (setup_args (''/opt/packtools'' @ ''/'' @ ''setup.py'')) =
        [''/opt/packtools'' @ ''/scripts/multipip'', ''/opt/packtools'' @ ''/scripts/pip-download'',
         ''/opt/packtools'' @ ''/scripts/py2rpm'', ''/opt/packtools'' @ ''/scripts/specprint'',
         ''/opt/packtools'' @ ''/scripts/yyoom'']"
    using w h by blast
  have c2: "map dirname (scripts (setup_args (''/opt/packtools'' @ ''/'' @ ''setup.py''))) =
        replicate 5 (''/opt/packtools'' @ ''/scripts'')"
    using w h by blast
  have r: "scripts (setup_args (''/'' @ ''setup.py'')) =
        [''/scripts/multipip'', ''/scripts/pip-download'', ''/scripts/py2rpm'',
         ''/scripts/specprint'', ''/scripts/yyoom'']"
    using w h by blast
  have b: "scripts (setup_args ''setup.py'') =
        [''scripts/multipip'', ''scripts/pip-download'', ''scripts/py2rpm'',
         ''scripts/specprint'', ''scripts/yyoom'']"
    using w h by blast
  have g1: "scripts (setup_args ''/opt/packtools/setup.py'') =
     [''/opt/packtools/scripts/multipip'', ''/opt/packtools/scripts/pip-download'',
      ''/opt/packtools/scripts/py2rpm'', ''/opt/packtools/scripts/specprint'',
      ''/opt/packtools/scripts/yyoom'']"
    using c1 by simp
  have g2: "map dirname (scripts (setup_args ''/opt/packtools/setup.py'')) =
     replicate 5 ''/opt/packtools/scripts''"
    using c2 by simp
  have g3: "scripts (setup_args ''/setup.py'') =
     [''/scripts/multipip'', ''/scripts/pip-download'', ''/scripts/py2rpm'',
      ''/scripts/specprint'', ''/scripts/yyoom'']"
    using r by simp
  show ?thesis using g1 g2 g3 b h by blast
qed

section \<open>The literal fields\<close>

text \<open>
  Claim C3. The \<^verbatim>\<open>install_requires\<close> sequence consists of exactly the three
  specifiers \<^verbatim>\<open>argparse\<close>, \<^verbatim>\<open>pip>=1.3\<close> and \<^verbatim>\<open>six>=1.4.1\<close>, in that order,
  wherever the descriptor file lies.
\<close>

theorem install_requires_exact:
  "install_requires (setup_args f) = [''argparse'', ''pip>=1.3'', ''six>=1.4.1''] \<and>
   length (install_requires (setup_args f)) = 3"
  by (simp add: setup_args_def)

text \<open>
  Claim C4. The fields name, version, author, url, keywords and classifiers handed to
  the build tool are the literals of the source, character for character, wherever the
  descriptor file lies.
\<close>

theorem metadata_literal:
  "name (setup_args f) = ''packtools'' \<and>
   version (setup_args f) = ''0.0.1'' \<and>
   author (setup_args f) = ''OpenStack Foundation'' \<and>
   url (setup_args f) = ''https://github.com/harlowja/packtools/'' \<and>
   keywords_field (setup_args f) = ''packaging rpm pip yum specfile'' \<and>
   classifiers (setup_args f) =
     [''Development Status :: 4 - Beta'', ''Topic :: Utilities'',
      ''Operating System :: POSIX :: Linux'', ''Programming Language :: Python'']"
  by (simp add: setup_args_def)

section \<open>The dependency specifiers\<close>

text \<open>
  Claim C7, as stated: every declared specifier is a valid name with an optional version
  constraint, and all three carry a minimum-version constraint. The second half fails:
  \<^verbatim>\<open>argparse\<close> is declared bare.
\<close>

theorem all_min_version_counterexample:
  "\<not> (list_all valid_specifier (install_requires (setup_args ''setup.py'')) \<and>
      list_all has_min_version (install_requires (setup_args ''setup.py'')))"
  by (simp add: setup_args_def parse_specifier_def valid_specifier_def has_min_version_def
      name_char_def version_char_def)

text \<open>
  Claim C7, amended. Every declared specifier parses as a name with an optional version
  constraint; \<^verbatim>\<open>pip\<close> and \<^verbatim>\<open>six\<close> carry a minimum-version constraint
  (\<^verbatim>\<open>>=1.3\<close> and \<^verbatim>\<open>>=1.4.1\<close>), and \<^verbatim>\<open>argparse\<close> carries no version
  constraint at all.
\<close>

theorem specifiers_parse:
  "map parse_specifier (install_requires (setup_args f)) =
     [Some (''argparse'', None),
      Some (''pip'', Some (Op_ge, ''1.3'')),
      Some (''six'', Some (Op_ge, ''1.4.1''))] \<and>
   map valid_specifier (install_requires (setup_args f)) = [True, True, True] \<and>
   map has_min_version (install_requires (setup_args f)) = [False, True, True]"
  by (simp add: setup_args_def parse_specifier_def valid_specifier_def has_min_version_def
      name_char_def version_char_def)

text \<open>
  Claim C10. The package names of the three \<^verbatim>\<open>install_requires\<close> entries are
  \<^verbatim>\<open>argparse\<close>, \<^verbatim>\<open>pip\<close> and \<^verbatim>\<open>six\<close>, pairwise distinct.
\<close>

theorem dependency_names_distinct:
  "map specifier_name (install_requires (setup_args f)) =
     [Some ''argparse'', Some ''pip'', Some ''six''] \<and>
   distinct (map specifier_name (install_requires (setup_args f)))"
  by (simp add: setup_args_def specifier_name_def parse_specifier_def name_char_def
      version_char_def)

end
